theory Spec2Isabelle
  imports Main "HOL-Library.AList"
begin

section \<open>The normalized family model\<close>

text \<open>
  The types of \<^verbatim>\<open>types/family.ts\<close>. A TypeScript interface is a record, an optional
  field an \<open>option\<close>, a string a \<open>string\<close>. The fields named \<^verbatim>\<open>id\<close> are called
  \<open>profile_id\<close> and \<open>family_id\<close>, the children of a family \<open>fam_children\<close>, because
  two records of one theory cannot share a field name and \<open>id\<close> is a HOL constant.
  Of a profile the fields that the parser writes and the graph builder reads are kept;
  the remaining optional fields (maiden name, events, images, notes, counters, display flags)
  are read by no function below. The literal types \<^verbatim>\<open>'M' | 'F' | 'U' | 'X'\<close> of a sex
  are the constructors \<open>SexM\<close>, \<open>SexF\<close>, \<open>SexU\<close>, \<open>SexX\<close>.
\<close>

datatype Sex = SexM | SexF | SexU | SexX

record Profile =
  profile_id :: string
  firstName :: "string option"
  lastName :: "string option"
  sex :: "Sex option"
  famc :: "string option"
  fams :: "string list option"

record Family =
  family_id :: string
  husb :: "string option"
  wife :: "string option"
  fam_children :: "string list option"

record GedcomData =
  indis :: "Profile list"
  data_fams :: "Family list"

datatype relationship = Full | Half | Step

text \<open>
  A node of the graph. The entries of \<open>spouses\<close> are pairs (spouseId, familyId), those of
  \<open>children\<close> pairs (childId, familyId), those of \<open>siblings\<close> pairs (siblingId, relationship).
  \<open>parents\<close> is optional in the source and is \<open>None\<close> until the builder assigns it.
\<close>

record ProfileNode =
  profile :: Profile
  parents :: "string list option"
  spouses :: "(string \<times> string) list"
  children :: "(string \<times> string) list"
  siblings :: "(string \<times> relationship) list"

text \<open>
  A JavaScript \<^verbatim>\<open>Map\<close> keeps its keys in the order of their first insertion and
  \<^verbatim>\<open>set\<close> replaces the value of a key that is already there: that is an association
  list with \<open>AList.update\<close>, read with \<open>map_of\<close>.
\<close>

record RelationshipGraph =
  individuals :: "(string \<times> ProfileNode) list"
  families :: "(string \<times> Family) list"

text \<open>
  A JavaScript number as far as the queries and the parser need it: an integer, \<^verbatim>\<open>NaN\<close> or
  an infinity. The generation bound is only ever compared with the integer depth, where a
  fractional bound behaves as its floor.
\<close>

datatype number = Num int | NaN | Infinity | NegInfinity

section \<open>RelationshipGraphBuilder.build\<close>

datatype error = TypeError

text \<open>JavaScript truthiness of an optional string: defined and not empty.\<close>

fun truthy :: "string option \<Rightarrow> bool" where
  "truthy None = False"
| "truthy (Some s) = (s \<noteq> [])"

text \<open>\<^verbatim>\<open>x || ''\<close> for an optional string.\<close>

fun orEmpty :: "string option \<Rightarrow> string" where
  "orEmpty None = []"
| "orEmpty (Some s) = s"

text \<open>\<^verbatim>\<open>xs?.forEach\<close> runs over nothing when the list is undefined.\<close>

fun orNil :: "'a list option \<Rightarrow> 'a list" where
  "orNil None = []"
| "orNil (Some xs) = xs"

text \<open>\<^verbatim>\<open>new Map(data.fams.map(f => [f.id, f]))\<close>\<close>

definition familiesMap :: "Family list \<Rightarrow> (string \<times> Family) list" where
  "familiesMap fs = foldl (\<lambda>m f. AList.update (family_id f) f m) [] fs"

definition newNode :: "Profile \<Rightarrow> ProfileNode" where
  "newNode p = \<lparr>profile = p, parents = None, spouses = [], children = [], siblings = []\<rparr>"

text \<open>First pass: one \<^verbatim>\<open>individuals.set\<close> per profile, in model order.\<close>

definition firstPass :: "Profile list \<Rightarrow> (string \<times> ProfileNode) list" where
  "firstPass ps = foldl (\<lambda>m p. AList.update (profile_id p) (newNode p) m) [] ps"

text \<open>
  ``Add parents'' and ``Add siblings'': only when \<^verbatim>\<open>profile.famc\<close> is truthy and
  \<^verbatim>\<open>families.get\<close> finds the family.
\<close>

definition addParents :: "(string \<times> Family) list \<Rightarrow> Profile \<Rightarrow> ProfileNode \<Rightarrow> ProfileNode" where
  "addParents fm p node =
     (if truthy (famc p) then
        (case map_of fm (orEmpty (famc p)) of
           None \<Rightarrow> node
         | Some family \<Rightarrow>
             node\<lparr>parents := Some (filter (\<lambda>s. s \<noteq> []) [orEmpty (husb family), orEmpty (wife family)]),
                  siblings := siblings node @
                    map (\<lambda>siblingId. (siblingId, Full))
                      (filter (\<lambda>siblingId. siblingId \<noteq> profile_id p) (orNil (fam_children family)))\<rparr>)
      else node)"

text \<open>The body of \<^verbatim>\<open>profile.fams?.forEach(famId => ...)\<close>.\<close>

definition addSpouseAndChildren ::
  "(string \<times> Family) list \<Rightarrow> Profile \<Rightarrow> ProfileNode \<Rightarrow> string \<Rightarrow> ProfileNode" where
  "addSpouseAndChildren fm p node famId =
     (case map_of fm famId of
        None \<Rightarrow> node
      | Some family \<Rightarrow>
          (let spouseId = (if husb family = Some (profile_id p) then wife family else husb family);
               node1 = (if truthy spouseId
                        then node\<lparr>spouses := spouses node @ [(orEmpty spouseId, famId)]\<rparr>
                        else node)
           in node1\<lparr>children := children node1 @
                 map (\<lambda>childId. (childId, famId)) (orNil (fam_children family))\<rparr>))"

text \<open>Everything the second pass does to the node of one profile.\<close>

definition relate :: "(string \<times> Family) list \<Rightarrow> Profile \<Rightarrow> ProfileNode \<Rightarrow> ProfileNode" where
  "relate fm p node = foldl (addSpouseAndChildren fm p) (addParents fm p node) (orNil (fams p))"

text \<open>
  One iteration of the second pass. The source reads \<^verbatim>\<open>individuals.get(profile.id)!\<close> and
  mutates the node it gets; a missing node is an error here (the runtime would raise a
  TypeError at the first property access on \<^verbatim>\<open>undefined\<close>), and the mutation is the
  update of the map at the key of the node.
\<close>

definition secondPassStep ::
  "(string \<times> Family) list \<Rightarrow> Profile \<Rightarrow> (string \<times> ProfileNode) list
     \<Rightarrow> error + (string \<times> ProfileNode) list" where
  "secondPassStep fm p m =
     (case map_of m (profile_id p) of
        None \<Rightarrow> Inl TypeError
      | Some node \<Rightarrow> Inr (AList.update (profile_id p) (relate fm p node) m))"

fun secondPass ::
  "(string \<times> Family) list \<Rightarrow> Profile list \<Rightarrow> (string \<times> ProfileNode) list
     \<Rightarrow> error + (string \<times> ProfileNode) list" where
  "secondPass fm [] m = Inr m"
| "secondPass fm (p # ps) m =
     (case secondPassStep fm p m of
        Inl e \<Rightarrow> Inl e
      | Inr m' \<Rightarrow> secondPass fm ps m')"

definition build :: "GedcomData \<Rightarrow> error + RelationshipGraph" where
  "build data =
     (let fm = familiesMap (data_fams data) in
      case secondPass fm (indis data) (firstPass (indis data)) of
        Inl e \<Rightarrow> Inl e
      | Inr m \<Rightarrow> Inr \<lparr>individuals = m, families = fm\<rparr>)"

section \<open>Traversal queries\<close>

text \<open>\<^verbatim>\<open>depth > generations\<close>\<close>

fun depthExceeds :: "nat \<Rightarrow> number \<Rightarrow> bool" where
  "depthExceeds depth (Num n) = (int depth > n)"
| "depthExceeds depth NaN = False"
| "depthExceeds depth Infinity = False"
| "depthExceeds depth NegInfinity = True"

text \<open>The two variables that the closure \<^verbatim>\<open>traverse\<close> of \<^verbatim>\<open>getAncestors\<close> mutates.\<close>

record TraverseState =
  visited :: "string set"
  result :: "Profile list"

text \<open>
  \<^verbatim>\<open>traverse(id, depth)\<close> and its loop \<^verbatim>\<open>node.parents?.forEach(parentId => ...)\<close>, which
  calls \<^verbatim>\<open>traverse(parentId, depth + 1)\<close> for every truthy parent id, each call starting
  from the state the previous one left. \<open>forEachParent\<close> receives the depth of the calls it
  makes.
\<close>

function traverse ::
    "RelationshipGraph \<Rightarrow> number \<Rightarrow> string \<Rightarrow> nat \<Rightarrow> TraverseState \<Rightarrow> TraverseState"
  and forEachParent ::
    "RelationshipGraph \<Rightarrow> number \<Rightarrow> string list \<Rightarrow> nat \<Rightarrow> TraverseState \<Rightarrow> TraverseState" where
  "traverse graph generations i depth st =
     (if depthExceeds depth generations \<or> i \<in> visited st then st
      else (case map_of (individuals graph) i of
              None \<Rightarrow> st\<lparr>visited := insert i (visited st)\<rparr>
            | Some node \<Rightarrow>
                forEachParent graph generations (orNil (parents node)) (depth + 1)
                  (st\<lparr>visited := insert i (visited st), result := result st @ [profile node]\<rparr>)))"
| "forEachParent graph generations [] depth st = st"
| "forEachParent graph generations (parentId # rest) depth st =
     forEachParent graph generations rest depth
       (if parentId \<noteq> [] then traverse graph generations parentId depth st else st)"
  by pat_completeness auto

definition getAncestors :: "string \<Rightarrow> RelationshipGraph \<Rightarrow> number \<Rightarrow> Profile list" where
  "getAncestors profileId graph generations =
     result (traverse graph generations profileId 0 \<lparr>visited = {}, result = []\<rparr>)"

text \<open>
  \<^verbatim>\<open>ids.map(id => graph.individuals.get(id)?.profile).filter(Boolean)\<close>: the profiles of the
  ids that the graph knows, in order.
\<close>

definition resolveProfiles :: "RelationshipGraph \<Rightarrow> string list \<Rightarrow> Profile list" where
  "resolveProfiles graph ids =
     List.map_filter (\<lambda>i. map_option profile (map_of (individuals graph) i)) ids"

record ImmediateFamily =
  if_parents :: "Profile list"
  if_spouses :: "Profile list"
  if_children :: "Profile list"
  if_siblings :: "Profile list"

definition getImmediateFamily :: "string \<Rightarrow> RelationshipGraph \<Rightarrow> ImmediateFamily" where
  "getImmediateFamily profileId graph =
     (case map_of (individuals graph) profileId of
        None \<Rightarrow> \<lparr>if_parents = [], if_spouses = [], if_children = [], if_siblings = []\<rparr>
      | Some node \<Rightarrow>
          \<lparr>if_parents = resolveProfiles graph (orNil (parents node)),
           if_spouses = resolveProfiles graph (map fst (spouses node)),
           if_children = resolveProfiles graph (map fst (children node)),
           if_siblings = resolveProfiles graph (map fst (siblings node))\<rparr>)"

section \<open>GedcomParser: names, sex and dates\<close>

text \<open>
  Strings are lists of characters that stand for ASCII text. The built-ins of JavaScript
  that the parser calls are written out for such text: \<^verbatim>\<open>trim\<close>, \<^verbatim>\<open>split(' ')\<close>,
  \<^verbatim>\<open>toUpperCase\<close>, \<^verbatim>\<open>parseInt\<close> and the test of \<^verbatim>\<open>/^\d{4}$/\<close>. Characters beyond
  ASCII are outside the model: JavaScript also strips the further white space of Unicode
  (U+00A0 and others) in \<^verbatim>\<open>trim\<close> and \<^verbatim>\<open>parseInt\<close> and changes the case of further
  letters, and \<open>isWhiteSpace\<close> and \<open>toUpperCaseChar\<close> below know the ASCII ones only.
\<close>

definition isWhiteSpace :: "char \<Rightarrow> bool" where
  "isWhiteSpace c = (c \<in> set [CHR 0x09, CHR 0x0A, CHR 0x0B, CHR 0x0C, CHR 0x0D, CHR '' ''])"

definition trim :: "string \<Rightarrow> string" where
  "trim s = rev (dropWhile isWhiteSpace (rev (dropWhile isWhiteSpace s)))"

text \<open>\<^verbatim>\<open>s.split(sep)\<close> for a separator of one character: never an empty list.\<close>

fun splitOn :: "char \<Rightarrow> string \<Rightarrow> string list" where
  "splitOn sep [] = [[]]"
| "splitOn sep (c # cs) =
     (if c = sep then [] # splitOn sep cs
      else (c # hd (splitOn sep cs)) # tl (splitOn sep cs))"

definition toUpperCaseChar :: "char \<Rightarrow> char" where
  "toUpperCaseChar c =
     (case map_of (zip ''abcdefghijklmnopqrstuvwxyz'' ''ABCDEFGHIJKLMNOPQRSTUVWXYZ'') c of
        None \<Rightarrow> c
      | Some u \<Rightarrow> u)"

definition toUpperCase :: "string \<Rightarrow> string" where
  "toUpperCase s = map toUpperCaseChar s"

definition isDigit :: "char \<Rightarrow> bool" where
  "isDigit c = (c \<in> set ''0123456789'')"

text \<open>The value of a digit in a radix up to 16.\<close>

definition digitOf :: "char \<Rightarrow> int option" where
  "digitOf c =
     map_of (zip ''0123456789abcdefABCDEF''
       [0, 1, 2, 3, 4, 5, 6, 7, 8, 9, 10, 11, 12, 13, 14, 15, 10, 11, 12, 13, 14, 15]) c"

definition isRadixDigit :: "int \<Rightarrow> char \<Rightarrow> bool" where
  "isRadixDigit radix c = (case digitOf c of None \<Rightarrow> False | Some v \<Rightarrow> v < radix)"

definition digitValue :: "char \<Rightarrow> int" where
  "digitValue c = (case digitOf c of None \<Rightarrow> 0 | Some v \<Rightarrow> v)"

fun stripSign :: "string \<Rightarrow> bool \<times> string" where
  "stripSign [] = (False, [])"
| "stripSign (c # cs) =
     (if c = CHR ''-'' then (True, cs)
      else if c = CHR ''+'' then (False, cs)
      else (False, c # cs))"

fun stripPrefix :: "string \<Rightarrow> int \<times> string" where
  "stripPrefix (a # b # cs) =
     (if a = CHR ''0'' \<and> (b = CHR ''x'' \<or> b = CHR ''X'') then (16, cs) else (10, a # b # cs))"
| "stripPrefix cs = (10, cs)"

text \<open>
  \<^verbatim>\<open>parseInt(s)\<close> with no radix: leading white space and a sign are skipped, a prefix
  \<^verbatim>\<open>0x\<close> selects radix 16, the longest run of digits is read and what follows it is
  ignored; no digit gives \<^verbatim>\<open>NaN\<close>. The value is kept as the exact integer, which is
  the number that JavaScript returns as long as it is below \<open>2^53\<close> in absolute value. A
  longer run of digits, which JavaScript rounds to the nearest double and beyond the
  range of doubles to an infinity, is not modelled: no statement below reads such a value.
\<close>

definition parseInt :: "string \<Rightarrow> number" where
  "parseInt s =
     (let (negative, s1) = stripSign (dropWhile isWhiteSpace s);
          (radix, s2) = stripPrefix s1;
          z = takeWhile (isRadixDigit radix) s2
      in if z = [] then NaN
         else Num ((if negative then - 1 else 1) * foldl (\<lambda>acc c. acc * radix + digitValue c) 0 z))"

definition months :: "(string \<times> int) list" where
  "months =
     [(''JAN'', 1), (''FEB'', 2), (''MAR'', 3), (''APR'', 4), (''MAY'', 5), (''JUN'', 6),
      (''JUL'', 7), (''AUG'', 8), (''SEP'', 9), (''OCT'', 10), (''NOV'', 11), (''DEC'', 12)]"

definition monthToNumber :: "string \<Rightarrow> int" where
  "monthToNumber month =
     (case map_of months (toUpperCase month) of None \<Rightarrow> 0 | Some n \<Rightarrow> n)"

text \<open>
  The object that \<open>parseDate\<close> returns; the field \<^verbatim>\<open>text\<close> is called \<open>dateText\<close>, and
  the qualifier of a \<^verbatim>\<open>DateInfo\<close>, which the parser never sets, is left out.
\<close>

record DateInfo =
  day :: "number option"
  month :: "number option"
  year :: "number option"
  dateText :: "string option"

text \<open>\<^verbatim>\<open>/^\d{4}$/.test(s)\<close>\<close>

definition fourDigits :: "string \<Rightarrow> bool" where
  "fourDigits s = (length s = 4 \<and> list_all isDigit s)"

definition parseDate :: "string \<Rightarrow> DateInfo option" where
  "parseDate dateStr =
     (if dateStr = [] then None
      else
        (let parts = splitOn (CHR '' '') (trim dateStr);
             result = \<lparr>day = None, month = None, year = None, dateText = Some dateStr\<rparr>
         in Some
           (if length parts \<ge> 3 then
              result\<lparr>day := Some (parseInt (parts ! 0)),
                     month := Some (Num (monthToNumber (parts ! 1))),
                     year := Some (parseInt (parts ! 2))\<rparr>
            else if length parts = 1 \<and> fourDigits (parts ! 0) then
              result\<lparr>year := Some (parseInt (parts ! 0))\<rparr>
            else result)))"

text \<open>\<^verbatim>\<open>s || undefined\<close>\<close>

definition orUndefined :: "string \<Rightarrow> string option" where
  "orUndefined s = (if s = [] then None else Some s)"

text \<open>
  The groups 1 and 2 of \<^verbatim>\<open>nameString.match(/^([^/]*)\s*\/([^/]+)\//)\<close>. The first group
  is greedy and takes everything before the first slash, so that \<^verbatim>\<open>\s*\<close> matches
  nothing; the second group is the text up to the next slash, which must exist, and must
  not be empty.
\<close>

definition nameMatch :: "string \<Rightarrow> (string \<times> string) option" where
  "nameMatch s =
     (let g1 = takeWhile (\<lambda>c. c \<noteq> CHR ''/'') s in
      case dropWhile (\<lambda>c. c \<noteq> CHR ''/'') s of
        [] \<Rightarrow> None
      | slash # r \<Rightarrow>
          (let g2 = takeWhile (\<lambda>c. c \<noteq> CHR ''/'') r in
           if g2 = [] \<or> dropWhile (\<lambda>c. c \<noteq> CHR ''/'') r = [] then None
           else Some (g1, g2)))"

text \<open>The pair returned is (firstName, lastName).\<close>

definition parseName :: "string \<Rightarrow> string option \<times> string option" where
  "parseName nameString =
     (case nameMatch nameString of
        Some (g1, g2) \<Rightarrow> (orUndefined (trim g1), orUndefined (trim g2))
      | None \<Rightarrow> (Some nameString, None))"

text \<open>
  \<^verbatim>\<open>normalizeSex(sex)\<close>: the argument is the value of the tag, if it has one. It is
  called \<open>sexValue\<close> here, \<open>sex\<close> being a field of a profile.
\<close>

definition normalizeSex :: "string option \<Rightarrow> Sex option" where
  "normalizeSex sexValue =
     (if \<not> truthy sexValue then None
      else
        (let s = toUpperCase (orEmpty sexValue) in
         if s = ''M'' \<or> s = ''MALE'' then Some SexM
         else if s = ''F'' \<or> s = ''FEMALE'' then Some SexF
         else if s = ''X'' \<or> s = ''OTHER'' then Some SexX
         else Some SexU))"

section \<open>Notions used in the statements and proofs\<close>

text \<open>
  The node that \<open>build\<close> leaves under an id: the first pass keeps the node of the last
  profile with that id, the second pass applies \<open>relate\<close> once for every profile with that
  id, in model order.
\<close>

definition nodeOf :: "(string \<times> Family) list \<Rightarrow> Profile list \<Rightarrow> string \<Rightarrow> ProfileNode option" where
  "nodeOf fm ps k =
     map_option (\<lambda>q. foldl (\<lambda>n p. relate fm p n) (newNode q) (filter (\<lambda>p. profile_id p = k) ps))
       (find (\<lambda>p. profile_id p = k) (rev ps))"

text \<open>The entries that one family id of \<open>fams\<close> appends to the spouses and to the children.\<close>

definition spouseEntries :: "(string \<times> Family) list \<Rightarrow> Profile \<Rightarrow> string \<Rightarrow> (string \<times> string) list" where
  "spouseEntries fm p famId =
     (case map_of fm famId of
        None \<Rightarrow> []
      | Some family \<Rightarrow>
          (let spouseId = (if husb family = Some (profile_id p) then wife family else husb family)
           in if truthy spouseId then [(orEmpty spouseId, famId)] else []))"

definition childEntries :: "(string \<times> Family) list \<Rightarrow> string \<Rightarrow> (string \<times> string) list" where
  "childEntries fm famId =
     (case map_of fm famId of
        None \<Rightarrow> []
      | Some family \<Rightarrow> map (\<lambda>childId. (childId, famId)) (orNil (fam_children family)))"

text \<open>A parent pair holds at most two ids, none of them empty.\<close>

definition parentPair :: "ProfileNode \<Rightarrow> bool" where
  "parentPair n = (length (orNil (parents n)) \<le> 2 \<and> [] \<notin> set (orNil (parents n)))"

text \<open>Every node sits under the id of its own profile.\<close>

definition keyed :: "RelationshipGraph \<Rightarrow> bool" where
  "keyed g = (\<forall>k n. map_of (individuals g) k = Some n \<longrightarrow> profile_id (profile n) = k)"

text \<open>The result holds each id once, and only ids that are marked visited.\<close>

definition onceEach :: "TraverseState \<Rightarrow> bool" where
  "onceEach st =
     (distinct (map profile_id (result st)) \<and> profile_id ` set (result st) \<subseteq> visited st)"

text \<open>Every visited id that the graph knows has its profile in the result.\<close>

definition collected :: "RelationshipGraph \<Rightarrow> TraverseState \<Rightarrow> bool" where
  "collected g st =
     (\<forall>p n. p \<in> visited st \<longrightarrow> map_of (individuals g) p = Some n \<longrightarrow> profile n \<in> set (result st))"

text \<open>\<^verbatim>\<open>parts.join(sep)\<close>, the inverse of \<open>splitOn\<close>.\<close>

fun joinWith :: "char \<Rightarrow> string list \<Rightarrow> string" where
  "joinWith sep [] = []"
| "joinWith sep [t] = t"
| "joinWith sep (t # u # ts) = t @ sep # joinWith sep (u # ts)"

text \<open>Equal up to the case of the letters.\<close>

definition equalsIgnoreCase :: "string \<Rightarrow> string \<Rightarrow> bool" where
  "equalsIgnoreCase a b = (toUpperCase a = toUpperCase b)"

section \<open>Example models\<close>

definition person :: "string \<Rightarrow> string option \<Rightarrow> string list option \<Rightarrow> Profile" where
  "person i c s =
     \<lparr>profile_id = i, firstName = None, lastName = None, sex = None, famc = c, fams = s\<rparr>"

text \<open>One couple with one child.\<close>

definition coupleFamily :: Family where
  "coupleFamily =
     \<lparr>family_id = ''F'', husb = Some ''A'', wife = Some ''B'', fam_children = Some [''C'']\<rparr>"

definition coupleModel :: GedcomData where
  "coupleModel =
     \<lparr>indis = [person ''A'' None (Some [''F'']), person ''B'' None (Some [''F'']),
                person ''C'' (Some ''F'') None],
      data_fams = [coupleFamily]\<rparr>"

definition coupleGraph :: RelationshipGraph where
  "coupleGraph =
     \<lparr>individuals =
        [(''A'', \<lparr>profile = person ''A'' None (Some [''F'']), parents = None,
                  spouses = [(''B'', ''F'')], children = [(''C'', ''F'')], siblings = []\<rparr>),
         (''B'', \<lparr>profile = person ''B'' None (Some [''F'']), parents = None,
                  spouses = [(''A'', ''F'')], children = [(''C'', ''F'')], siblings = []\<rparr>),
         (''C'', \<lparr>profile = person ''C'' (Some ''F'') None, parents = Some [''A'', ''B''],
                  spouses = [], children = [], siblings = []\<rparr>)],
      families = [(''F'', coupleFamily)]\<rparr>"

text \<open>
  Corrupted data: \<open>P\<close> is the child of \<open>Q\<close> in one family and \<open>Q\<close> the child of \<open>P\<close> in
  another, so that each is an ancestor of itself.
\<close>

definition cycleModel :: GedcomData where
  "cycleModel =
     \<lparr>indis = [person ''P'' (Some ''F1'') None, person ''Q'' (Some ''F2'') None],
      data_fams =
        [\<lparr>family_id = ''F1'', husb = Some ''Q'', wife = None, fam_children = Some [''P'']\<rparr>,
         \<lparr>family_id = ''F2'', husb = Some ''P'', wife = None, fam_children = Some [''Q'']\<rparr>]\<rparr>"

definition cycleGraph :: RelationshipGraph where
  "cycleGraph =
     \<lparr>individuals =
        [(''P'', \<lparr>profile = person ''P'' (Some ''F1'') None, parents = Some [''Q''],
                  spouses = [], children = [], siblings = []\<rparr>),
         (''Q'', \<lparr>profile = person ''Q'' (Some ''F2'') None, parents = Some [''P''],
                  spouses = [], children = [], siblings = []\<rparr>)],
      families =
        [(''F1'', \<lparr>family_id = ''F1'', husb = Some ''Q'', wife = None, fam_children = Some [''P'']\<rparr>),
         (''F2'', \<lparr>family_id = ''F2'', husb = Some ''P'', wife = None, fam_children = Some [''Q'']\<rparr>)]\<rparr>"

text \<open>Three generations: \<open>G\<close> is the father of \<open>P\<close>, and \<open>P\<close> and \<open>Q\<close> are the parents of \<open>K\<close>.\<close>

definition threeGenerations :: GedcomData where
  "threeGenerations =
     \<lparr>indis = [person ''G'' None (Some [''F1'']), person ''P'' (Some ''F1'') (Some [''F2'']),
                person ''Q'' None (Some [''F2'']), person ''K'' (Some ''F2'') None],
      data_fams =
        [\<lparr>family_id = ''F1'', husb = Some ''G'', wife = None, fam_children = Some [''P'']\<rparr>,
         \<lparr>family_id = ''F2'', husb = Some ''P'', wife = Some ''Q'', fam_children = Some [''K'']\<rparr>]\<rparr>"

definition threeGenerationsGraph :: RelationshipGraph where
  "threeGenerationsGraph =
     \<lparr>individuals =
        [(''G'', \<lparr>profile = person ''G'' None (Some [''F1'']), parents = None,
                  spouses = [], children = [(''P'', ''F1'')], siblings = []\<rparr>),
         (''P'', \<lparr>profile = person ''P'' (Some ''F1'') (Some [''F2'']), parents = Some [''G''],
                  spouses = [(''Q'', ''F2'')], children = [(''K'', ''F2'')], siblings = []\<rparr>),
         (''Q'', \<lparr>profile = person ''Q'' None (Some [''F2'']), parents = None,
                  spouses = [(''P'', ''F2'')], children = [(''K'', ''F2'')], siblings = []\<rparr>),
         (''K'', \<lparr>profile = person ''K'' (Some ''F2'') None, parents = Some [''P'', ''Q''],
                  spouses = [], children = [], siblings = []\<rparr>)],
      families =
        [(''F1'', \<lparr>family_id = ''F1'', husb = Some ''G'', wife = None, fam_children = Some [''P'']\<rparr>),
         (''F2'', \<lparr>family_id = ''F2'', husb = Some ''P'', wife = Some ''Q'', fam_children = Some [''K'']\<rparr>)]\<rparr>"

text \<open>
  One individual whose \<open>famc\<close> and first \<open>fams\<close> entry point at no family, and whose second
  \<open>fams\<close> entry resolves.
\<close>

definition danglingModel :: GedcomData where
  "danglingModel =
     \<lparr>indis = [person ''X'' (Some ''NOPE'') (Some [''GONE'', ''F1''])],
      data_fams =
        [\<lparr>family_id = ''F1'', husb = Some ''X'', wife = Some ''W'', fam_children = Some [''K'']\<rparr>]\<rparr>"

definition danglingGraph :: RelationshipGraph where
  "danglingGraph =
     \<lparr>individuals =
        [(''X'', \<lparr>profile = person ''X'' (Some ''NOPE'') (Some [''GONE'', ''F1'']), parents = None,
                  spouses = [(''W'', ''F1'')], children = [(''K'', ''F1'')], siblings = []\<rparr>)],
      families =
        [(''F1'', \<lparr>family_id = ''F1'', husb = Some ''X'', wife = Some ''W'', fam_children = Some [''K'']\<rparr>)]\<rparr>"

text \<open>
  One individual whose \<open>famc\<close> resolves, to a family without parents, and whose \<open>fams\<close>
  holds a dangling entry before one that resolves.
\<close>

definition resolvingModel :: GedcomData where
  "resolvingModel =
     \<lparr>indis = [person ''C'' (Some ''F1'') (Some [''GONE'', ''F2''])],
      data_fams =
        [\<lparr>family_id = ''F1'', husb = None, wife = None, fam_children = Some [''C'']\<rparr>,
         \<lparr>family_id = ''F2'', husb = Some ''C'', wife = Some ''W'', fam_children = Some [''K'']\<rparr>]\<rparr>"

definition resolvingGraph :: RelationshipGraph where
  "resolvingGraph =
     \<lparr>individuals =
        [(''C'', \<lparr>profile = person ''C'' (Some ''F1'') (Some [''GONE'', ''F2'']), parents = Some [],
                  spouses = [(''W'', ''F2'')], children = [(''K'', ''F2'')], siblings = []\<rparr>)],
      families =
        [(''F1'', \<lparr>family_id = ''F1'', husb = None, wife = None, fam_children = Some [''C'']\<rparr>),
         (''F2'', \<lparr>family_id = ''F2'', husb = Some ''C'', wife = Some ''W'', fam_children = Some [''K'']\<rparr>)]\<rparr>"

text \<open>
  Two records with the id \<open>X\<close>: the \<open>famc\<close> of the first resolves, the \<open>famc\<close> of the second
  points at no family.
\<close>

definition duplicateModel :: GedcomData where
  "duplicateModel =
     \<lparr>indis = [person ''X'' (Some ''F1'') None, person ''X'' (Some ''NOPE'') None],
      data_fams =
        [\<lparr>family_id = ''F1'', husb = Some ''H'', wife = None, fam_children = Some [''X'', ''Y'']\<rparr>]\<rparr>"

definition duplicateGraph :: RelationshipGraph where
  "duplicateGraph =
     \<lparr>individuals =
        [(''X'', \<lparr>profile = person ''X'' (Some ''NOPE'') None, parents = Some [''H''],
                  spouses = [], children = [], siblings = [(''Y'', Full)]\<rparr>)],
      families =
        [(''F1'', \<lparr>family_id = ''F1'', husb = Some ''H'', wife = None, fam_children = Some [''X'', ''Y'']\<rparr>)]\<rparr>"

section \<open>Termination of the traversal\<close>

text \<open>
  The traversal terminates for every graph and every bound, because each call that recurses
  has first added an id of the (finite) graph to \<open>visited\<close>: the depth bound is not needed.
  The calls are nested, so that the visited set only grows is shown first, on the domain of
  the function.
\<close>

lemma visited_mono_dom:
  "traverse_forEachParent_dom (Inl (graph, generations, i, depth, st)) \<Longrightarrow>
     visited st \<subseteq> visited (traverse graph generations i depth st)"
  "traverse_forEachParent_dom (Inr (graph, generations, ps, depth, st)) \<Longrightarrow>
     visited st \<subseteq> visited (forEachParent graph generations ps depth st)"
proof (induct rule: traverse_forEachParent.pinduct)
  case (1 graph generations i depth st)
  then show ?case by (auto simp: traverse.psimps split: option.splits)
next
  case (2 graph generations depth st)
  then show ?case by (simp add: forEachParent.psimps)
next
  case (3 graph generations parentId rest depth st)
  then show ?case by (auto simp: forEachParent.psimps split: if_splits)
qed

lemma card_unvisited_less:
  assumes "map_of g i = Some node" "i \<notin> V"
  shows "card (fst ` set g - insert i V) < card (fst ` set g - V)"
proof -
  from assms have "i \<in> fst ` set g - V"
    by (auto dest: map_of_SomeD intro: rev_image_eqI)
  then show ?thesis
    by (intro psubset_card_mono) auto
qed

lemma card_unvisited_mono:
  assumes "V \<subseteq> W"
  shows "card (fst ` set g - W) \<le> card (fst ` set g - (V :: string set))"
  using assms by (intro card_mono) auto

termination traverse
  apply (relation "inv_image (less_than <*lex*> less_than)
    (\<lambda>x. case x of
       Inl (graph, generations, i, depth, st) \<Rightarrow>
         (card (fst ` set (individuals graph) - visited st), 0)
     | Inr (graph, generations, ps, depth, st) \<Rightarrow>
         (card (fst ` set (individuals graph) - visited st), Suc (length ps)))")
     apply (intro wf_inv_image wf_lex_prod wf_less_than)
    apply (simp add: card_unvisited_less)
   apply simp
  apply (auto simp: le_less [symmetric] intro!: card_unvisited_mono dest: visited_mono_dom(1))
  done

declare traverse.simps [simp del]

section \<open>What the two passes of build compute\<close>

text \<open>
  The lookups in the maps that \<open>build\<close> fills, for every model: the family of an id is the
  last family with that id, the node of an id starts from the last profile with that id and
  receives the second-pass step of every profile with that id, in model order.
\<close>

lemma keys_update: "fst ` set (AList.update k v al) = insert k (fst ` set al)"
  by (simp add: dom_update)

lemma familiesMap_keys_gen:
  "fst ` set (foldl (\<lambda>m f. AList.update (family_id f) f m) m0 fs) = fst ` set m0 \<union> family_id ` set fs"
  by (induction fs arbitrary: m0) (auto simp: keys_update)

lemma familiesMap_keys: "fst ` set (familiesMap fs) = family_id ` set fs"
  by (simp add: familiesMap_def familiesMap_keys_gen)

lemma familiesMap_lookup:
  "map_of (familiesMap fs) k = find (\<lambda>f. family_id f = k) (rev fs)"
  unfolding familiesMap_def
  by (induction fs rule: rev_induct) (auto simp: update_conv')

lemma firstPass_keys_gen:
  "fst ` set (foldl (\<lambda>m p. AList.update (profile_id p) (newNode p) m) m0 ps)
     = fst ` set m0 \<union> profile_id ` set ps"
  by (induction ps arbitrary: m0) (auto simp: keys_update)

lemma firstPass_keys: "fst ` set (firstPass ps) = profile_id ` set ps"
  by (simp add: firstPass_def firstPass_keys_gen)

lemma firstPass_lookup:
  "map_of (firstPass ps) k = map_option newNode (find (\<lambda>p. profile_id p = k) (rev ps))"
  unfolding firstPass_def
  by (induction ps rule: rev_induct) (auto simp: update_conv')

lemma map_of_None_keys: "map_of m k = None \<longleftrightarrow> k \<notin> fst ` set m"
  by (simp add: map_of_eq_None_iff)

lemma secondPass_lookup:
  assumes "profile_id ` set ps \<subseteq> fst ` set m"
  shows "\<exists>m'. secondPass fm ps m = Inr m' \<and> fst ` set m' = fst ` set m \<and>
           (\<forall>k. map_of m' k =
              map_option (\<lambda>n. foldl (\<lambda>n p. relate fm p n) n (filter (\<lambda>p. profile_id p = k) ps))
                (map_of m k))"
  using assms
proof (induction ps arbitrary: m)
  case Nil
  then show ?case by (simp add: option.map_ident)
next
  case (Cons p ps)
  from Cons.prems obtain node where node: "map_of m (profile_id p) = Some node"
    by (cases "map_of m (profile_id p)") (auto simp: map_of_None_keys)
  define m1 where "m1 = AList.update (profile_id p) (relate fm p node) m"
  have step: "secondPassStep fm p m = Inr m1"
    by (simp add: secondPassStep_def node m1_def)
  have keys1: "fst ` set m1 = fst ` set m"
    using Cons.prems by (auto simp: m1_def keys_update)
  with Cons.prems have "profile_id ` set ps \<subseteq> fst ` set m1" by simp
  from Cons.IH[OF this] obtain m' where m': "secondPass fm ps m1 = Inr m'"
    "fst ` set m' = fst ` set m1"
    "\<And>k. map_of m' k =
        map_option (\<lambda>n. foldl (\<lambda>n p. relate fm p n) n (filter (\<lambda>p. profile_id p = k) ps))
          (map_of m1 k)"
    by blast
  have "map_of m' k =
      map_option (\<lambda>n. foldl (\<lambda>n p. relate fm p n) n (filter (\<lambda>p. profile_id p = k) (p # ps)))
        (map_of m k)" for k
    by (cases "k = profile_id p") (simp_all add: m'(3) m1_def update_conv' node)
  with m'(1,2) keys1 step show ?case by simp
qed

lemma build_lookup:
  "\<exists>g. build d = Inr g \<and> families g = familiesMap (data_fams d) \<and>
     fst ` set (individuals g) = profile_id ` set (indis d) \<and>
     (\<forall>k. map_of (individuals g) k = nodeOf (familiesMap (data_fams d)) (indis d) k)"
proof -
  have "profile_id ` set (indis d) \<subseteq> fst ` set (firstPass (indis d))"
    by (simp add: firstPass_keys)
  from secondPass_lookup[OF this, of "familiesMap (data_fams d)"]
  show ?thesis
    by (auto simp: build_def Let_def firstPass_keys firstPass_lookup nodeOf_def option.map_comp comp_def)
qed

lemma find_rev_distinct:
  assumes "distinct (map g xs)" "x \<in> set xs"
  shows "find (\<lambda>y. g y = g x) (rev xs) = Some x"
  using assms by (induction xs rule: rev_induct) (auto simp: image_iff)

lemma filter_distinct:
  assumes "distinct (map g xs)" "x \<in> set xs"
  shows "filter (\<lambda>y. g y = g x) xs = [x]"
  using assms
proof (induction xs)
  case Nil
  then show ?case by simp
next
  case (Cons a xs)
  then show ?case
    by (auto simp: image_iff filter_empty_conv)
qed

lemma nodeOf_distinct:
  assumes "distinct (map profile_id ps)" "p \<in> set ps"
  shows "nodeOf fm ps (profile_id p) = Some (relate fm p (newNode p))"
  using assms by (simp add: nodeOf_def find_rev_distinct filter_distinct)

lemma familiesMap_distinct:
  assumes "distinct (map family_id fs)" "f \<in> set fs"
  shows "map_of (familiesMap fs) (family_id f) = Some f"
  using assms by (simp add: familiesMap_lookup find_rev_distinct)


lemma addSpouseAndChildren_keeps [simp]:
  "profile (addSpouseAndChildren fm p n famId) = profile n"
  "parents (addSpouseAndChildren fm p n famId) = parents n"
  "siblings (addSpouseAndChildren fm p n famId) = siblings n"
  by (simp_all add: addSpouseAndChildren_def Let_def split: option.splits)

lemma foldl_addSpouseAndChildren_keeps [simp]:
  "profile (foldl (addSpouseAndChildren fm p) n fs) = profile n"
  "parents (foldl (addSpouseAndChildren fm p) n fs) = parents n"
  "siblings (foldl (addSpouseAndChildren fm p) n fs) = siblings n"
  by (induction fs arbitrary: n) simp_all

lemma addParents_keeps [simp]:
  "profile (addParents fm p n) = profile n"
  "spouses (addParents fm p n) = spouses n"
  "children (addParents fm p n) = children n"
  by (simp_all add: addParents_def split: option.splits)

lemma relate_profile [simp]: "profile (relate fm p n) = profile n"
  by (simp add: relate_def)

lemma relate_parents: "parents (relate fm p n) = parents (addParents fm p n)"
  by (simp add: relate_def)

lemma relate_siblings: "siblings (relate fm p n) = siblings (addParents fm p n)"
  by (simp add: relate_def)

lemma addSpouseAndChildren_lists:
  "spouses (addSpouseAndChildren fm p n famId) = spouses n @ spouseEntries fm p famId"
  "children (addSpouseAndChildren fm p n famId) = children n @ childEntries fm famId"
  by (simp_all add: addSpouseAndChildren_def spouseEntries_def childEntries_def Let_def
      split: option.splits)

lemma foldl_addSpouseAndChildren_lists:
  "spouses (foldl (addSpouseAndChildren fm p) n fs) = spouses n @ concat (map (spouseEntries fm p) fs)"
  "children (foldl (addSpouseAndChildren fm p) n fs) = children n @ concat (map (childEntries fm) fs)"
  by (induction fs arbitrary: n) (simp_all add: addSpouseAndChildren_lists)

lemma relate_spouses:
  "spouses (relate fm p n) = spouses n @ concat (map (spouseEntries fm p) (orNil (fams p)))"
  by (simp add: relate_def foldl_addSpouseAndChildren_lists)

lemma relate_children:
  "children (relate fm p n) = children n @ concat (map (childEntries fm) (orNil (fams p)))"
  by (simp add: relate_def foldl_addSpouseAndChildren_lists)

lemma addParents_dangling:
  assumes "\<And>fc. famc q = Some fc \<Longrightarrow> fc \<notin> fst ` set fm"
  shows "addParents fm q n = n"
proof (cases "famc q")
  case None
  then show ?thesis by (simp add: addParents_def)
next
  case (Some fc)
  with assms have "map_of fm fc = None" by (simp add: map_of_None_keys)
  with Some show ?thesis by (simp add: addParents_def)
qed

lemma foldl_relate_dangling:
  assumes "\<And>q fc. q \<in> set qs \<Longrightarrow> famc q = Some fc \<Longrightarrow> fc \<notin> fst ` set fm"
  shows "parents (foldl (\<lambda>n p. relate fm p n) n qs) = parents n
       \<and> siblings (foldl (\<lambda>n p. relate fm p n) n qs) = siblings n"
  using assms
proof (induction qs arbitrary: n)
  case Nil
  then show ?case by simp
next
  case (Cons q qs)
  have "addParents fm q n = n"
    using Cons.prems by (intro addParents_dangling) auto
  then have "parents (relate fm q n) = parents n" "siblings (relate fm q n) = siblings n"
    by (simp_all add: relate_parents relate_siblings)
  moreover have "parents (foldl (\<lambda>n p. relate fm p n) (relate fm q n) qs) = parents (relate fm q n)
       \<and> siblings (foldl (\<lambda>n p. relate fm p n) (relate fm q n) qs) = siblings (relate fm q n)"
    using Cons.prems by (intro Cons.IH) auto
  ultimately show ?case by simp
qed

lemma map_of_Some_keys: "map_of m k = Some v \<Longrightarrow> k \<in> fst ` set m"
  by (auto dest: map_of_SomeD intro: rev_image_eqI)

lemma spouseEntries_resolved: "(a, b) \<in> set (spouseEntries fm p famId) \<Longrightarrow> b \<in> fst ` set fm"
  by (cases "map_of fm famId") (auto simp: spouseEntries_def Let_def map_of_Some_keys split: if_splits)

lemma childEntries_resolved: "(a, b) \<in> set (childEntries fm famId) \<Longrightarrow> b \<in> fst ` set fm"
  by (cases "map_of fm famId") (auto simp: childEntries_def map_of_Some_keys)

lemma relate_resolved:
  assumes "snd ` set (spouses n) \<subseteq> fst ` set fm" "snd ` set (children n) \<subseteq> fst ` set fm"
  shows "snd ` set (spouses (relate fm p n)) \<subseteq> fst ` set fm
       \<and> snd ` set (children (relate fm p n)) \<subseteq> fst ` set fm"
  using assms
  by (auto simp: relate_spouses relate_children image_Un
      dest: spouseEntries_resolved childEntries_resolved)

lemma foldl_relate_resolved:
  assumes "snd ` set (spouses n) \<subseteq> fst ` set fm" "snd ` set (children n) \<subseteq> fst ` set fm"
  shows "snd ` set (spouses (foldl (\<lambda>n p. relate fm p n) n qs)) \<subseteq> fst ` set fm
       \<and> snd ` set (children (foldl (\<lambda>n p. relate fm p n) n qs)) \<subseteq> fst ` set fm"
  using assms
proof (induction qs arbitrary: n)
  case Nil
  then show ?case by simp
next
  case (Cons q qs)
  from relate_resolved[OF Cons.prems, of q] show ?case
    by (simp add: Cons.IH)
qed

lemma find_Some_set: "find P xs = Some x \<Longrightarrow> x \<in> set xs \<and> P x"
  by (auto simp: find_Some_iff)

lemma find_rev_exists:
  assumes "p \<in> set ps"
  shows "\<exists>q. find (\<lambda>r. g r = g p) (rev ps) = Some q"
proof (cases "find (\<lambda>r. g r = g p) (rev ps)")
  case None
  with assms show ?thesis by (auto simp: find_None_iff)
next
  case (Some q)
  then show ?thesis by blast
qed

lemma build_node_profile:
  assumes "build d = Inr g" "map_of (individuals g) k = Some n"
  shows "profile_id (profile n) = k"
proof -
  from build_lookup[of d] assms(1)
  have "map_of (individuals g) k = nodeOf (familiesMap (data_fams d)) (indis d) k"
    by auto
  with assms(2) obtain q where "find (\<lambda>p. profile_id p = k) (rev (indis d)) = Some q"
    and "n = foldl (\<lambda>n p. relate (familiesMap (data_fams d)) p n) (newNode q)
        (filter (\<lambda>p. profile_id p = k) (indis d))"
    by (auto simp: nodeOf_def)
  moreover have "profile (foldl (\<lambda>n p. relate fm p n) n0 qs) = profile n0" for fm n0 qs
    by (induction qs arbitrary: n0) simp_all
  ultimately show ?thesis
    by (auto simp: newNode_def dest: find_Some_set)
qed

lemma relate_parentPair: "parentPair n \<Longrightarrow> parentPair (relate fm p n)"
  by (auto simp: parentPair_def relate_parents addParents_def split: option.splits)

lemma foldl_relate_parentPair:
  "parentPair n \<Longrightarrow> parentPair (foldl (\<lambda>n p. relate fm p n) n qs)"
  by (induction qs arbitrary: n) (simp_all add: relate_parentPair)

lemma build_node_parents:
  assumes "build d = Inr g" "map_of (individuals g) k = Some n"
  shows "parentPair n"
proof -
  from build_lookup[of d] assms(1)
  have "map_of (individuals g) k = nodeOf (familiesMap (data_fams d)) (indis d) k"
    by auto
  with assms(2) obtain q where
    "n = foldl (\<lambda>n p. relate (familiesMap (data_fams d)) p n) (newNode q)
        (filter (\<lambda>p. profile_id p = k) (indis d))"
    by (auto simp: nodeOf_def)
  moreover have "parentPair (newNode q)"
    by (simp add: parentPair_def newNode_def)
  ultimately show ?thesis
    by (simp add: foldl_relate_parentPair)
qed


section \<open>Invariants of the traversal\<close>

lemma traverse_onceEach:
  "keyed g \<Longrightarrow> onceEach st \<Longrightarrow> onceEach (traverse g gen i depth st)"
  "keyed g \<Longrightarrow> onceEach st \<Longrightarrow> onceEach (forEachParent g gen ps depth st)"
proof (induction g gen i depth st and g gen ps depth st rule: traverse_forEachParent.induct)
  case (1 graph generations i depth st)
  show ?case
  proof (cases "depthExceeds depth generations \<or> i \<in> visited st")
    case True
    with 1 show ?thesis by (simp add: traverse.simps)
  next
    case False
    show ?thesis
    proof (cases "map_of (individuals graph) i")
      case None
      with False 1(3) show ?thesis by (auto simp: traverse.simps onceEach_def)
    next
      case (Some node)
      let ?st1 = "st\<lparr>visited := insert i (visited st), result := result st @ [profile node]\<rparr>"
      have "profile_id (profile node) = i" using Some 1(2) by (simp add: keyed_def)
      with False 1(3) have "onceEach ?st1"
        by (auto simp: onceEach_def)
      from 1(1)[OF False Some 1(2) this] show ?thesis
        using False Some by (simp add: traverse.simps)
    qed
  qed
next
  case (2 graph generations depth st)
  then show ?case by simp
next
  case (3 graph generations parentId rest depth st)
  then show ?case by (cases "parentId = []") simp_all
qed

lemma getAncestors_distinct_keyed:
  "keyed g \<Longrightarrow> distinct (map profile_id (getAncestors start g generations))"
  using traverse_onceEach(1)[of g "\<lparr>visited = {}, result = []\<rparr>" generations start 0]
  by (simp add: getAncestors_def onceEach_def)

lemma build_keyed: "build d = Inr g \<Longrightarrow> keyed g"
  by (auto simp: keyed_def dest: build_node_profile)

lemma forEachParent_beyond:
  "depthExceeds depth gen \<Longrightarrow> forEachParent g gen ps depth st = st"
  by (induction ps arbitrary: st) (simp_all add: traverse.simps)

lemma traverse_last_generation:
  assumes "\<not> depthExceeds depth gen" "depthExceeds (Suc depth) gen"
  shows "traverse g gen i depth st =
     (if i \<in> visited st then st
      else case map_of (individuals g) i of
             None \<Rightarrow> st\<lparr>visited := insert i (visited st)\<rparr>
           | Some node \<Rightarrow> st\<lparr>visited := insert i (visited st), result := result st @ [profile node]\<rparr>)"
  using assms by (simp add: traverse.simps forEachParent_beyond split: option.splits)

lemma resolveProfiles_Cons:
  "resolveProfiles g (p # ps) =
     (case map_of (individuals g) p of
        None \<Rightarrow> resolveProfiles g ps
      | Some n \<Rightarrow> profile n # resolveProfiles g ps)"
  by (simp add: resolveProfiles_def map_filter_simps split: option.splits)

lemma forEachParent_last_generation:
  assumes "\<not> depthExceeds depth gen" "depthExceeds (Suc depth) gen"
  shows "collected g st \<Longrightarrow> [] \<notin> set ps \<Longrightarrow>
     \<exists>ys. result (forEachParent g gen ps depth st) = result st @ ys
        \<and> length ys \<le> length ps
        \<and> set (result st) \<union> set ys = set (result st) \<union> set (resolveProfiles g ps)"
proof (induction ps arbitrary: st)
  case Nil
  then show ?case by (simp add: resolveProfiles_def map_filter_simps)
next
  case (Cons p ps)
  let ?st1 = "traverse g gen p depth st"
  have p: "p \<noteq> []" and ps: "[] \<notin> set ps" using Cons.prems(2) by auto
  have st1: "?st1 =
     (if p \<in> visited st then st
      else case map_of (individuals g) p of
             None \<Rightarrow> st\<lparr>visited := insert p (visited st)\<rparr>
           | Some node \<Rightarrow> st\<lparr>visited := insert p (visited st), result := result st @ [profile node]\<rparr>)"
    using assms by (rule traverse_last_generation)
  have c1: "collected g ?st1"
    using Cons.prems(1) unfolding st1 by (auto simp: collected_def split: option.splits)
  from Cons.IH[OF c1 ps] obtain ys where ys:
    "result (forEachParent g gen ps depth ?st1) = result ?st1 @ ys"
    "length ys \<le> length ps"
    "set (result ?st1) \<union> set ys = set (result ?st1) \<union> set (resolveProfiles g ps)"
    by blast
  have step: "forEachParent g gen (p # ps) depth st = forEachParent g gen ps depth ?st1"
    using p by simp
  show ?case
  proof (cases "p \<in> visited st")
    case True
    then have eq: "?st1 = st" by (simp add: st1)
    have "set (resolveProfiles g (p # ps)) \<subseteq> set (result st) \<union> set (resolveProfiles g ps)"
      using True Cons.prems(1)
      by (auto simp: resolveProfiles_Cons collected_def split: option.splits)
    moreover have "set (resolveProfiles g ps) \<subseteq> set (resolveProfiles g (p # ps))"
      by (auto simp: resolveProfiles_Cons split: option.splits)
    ultimately have "set (result st) \<union> set ys = set (result st) \<union> set (resolveProfiles g (p # ps))"
      using ys(3) unfolding eq by blast
    with ys(1,2) show ?thesis unfolding step eq by auto
  next
    case False
    show ?thesis
    proof (cases "map_of (individuals g) p")
      case None
      then have r: "result ?st1 = result st" using False by (simp add: st1)
      from None have "resolveProfiles g (p # ps) = resolveProfiles g ps"
        by (simp add: resolveProfiles_Cons)
      with ys r show ?thesis unfolding step by auto
    next
      case (Some node)
      then have r: "result ?st1 = result st @ [profile node]" using False by (simp add: st1)
      from Some have rp: "resolveProfiles g (p # ps) = profile node # resolveProfiles g ps"
        by (simp add: resolveProfiles_Cons)
      have "result (forEachParent g gen (p # ps) depth st) = result st @ (profile node # ys)"
        unfolding step ys(1) r by simp
      moreover have "length (profile node # ys) \<le> length (p # ps)"
        using ys(2) by simp
      moreover have "set (result st) \<union> set (profile node # ys)
          = set (result st) \<union> set (resolveProfiles g (p # ps))"
        using ys(3) unfolding r rp by auto
      ultimately show ?thesis by blast
    qed
  qed
qed

section \<open>Properties of build\<close>

lemmas build_unfold =
  build_def familiesMap_def firstPass_def secondPassStep_def relate_def addParents_def
  addSpouseAndChildren_def newNode_def person_def

lemma build_coupleModel: "build coupleModel = Inr coupleGraph"
  by (simp add: build_unfold coupleModel_def coupleGraph_def coupleFamily_def)

lemma build_cycleModel: "build cycleModel = Inr cycleGraph"
  by (simp add: build_unfold cycleModel_def cycleGraph_def)

lemma build_threeGenerations: "build threeGenerations = Inr threeGenerationsGraph"
  by (simp add: build_unfold threeGenerations_def threeGenerationsGraph_def)

lemma build_danglingModel: "build danglingModel = Inr danglingGraph"
  by (simp add: build_unfold danglingModel_def danglingGraph_def)

lemma build_resolvingModel: "build resolvingModel = Inr resolvingGraph"
  by (simp add: build_unfold resolvingModel_def resolvingGraph_def)

lemma build_duplicateModel: "build duplicateModel = Inr duplicateGraph"
  by (simp add: build_unfold duplicateModel_def duplicateGraph_def)

text \<open>
  C9. \<open>build\<close> is total. For every model, also one with duplicate ids or dangling pointers,
  the first pass has put a node under the id of every individual, the second pass finds
  the node of every individual and so never fails, and the keys of the individuals map of
  the graph that is returned are the ids of the individuals of the model.
\<close>

theorem build_total:
  "fst ` set (firstPass (indis d)) = profile_id ` set (indis d)
   \<and> (\<exists>m. secondPass (familiesMap (data_fams d)) (indis d) (firstPass (indis d)) = Inr m)
   \<and> (\<exists>g. build d = Inr g \<and> fst ` set (individuals g) = profile_id ` set (indis d))"
proof -
  have "profile_id ` set (indis d) \<subseteq> fst ` set (firstPass (indis d))"
    by (simp add: firstPass_keys)
  from secondPass_lookup[OF this, of "familiesMap (data_fams d)"]
  have "\<exists>m. secondPass (familiesMap (data_fams d)) (indis d) (firstPass (indis d)) = Inr m"
    by blast
  moreover from build_lookup[of d]
  have "\<exists>g. build d = Inr g \<and> fst ` set (individuals g) = profile_id ` set (indis d)"
    by blast
  ultimately show ?thesis
    by (simp add: firstPass_keys)
qed

theorem build_total_witness:
  "\<exists>g. build duplicateModel = Inr g \<and> fst ` set (individuals g) = {''X''}"
  using build_total[of duplicateModel]
  by (simp add: duplicateModel_def person_def)

text \<open>
  C1. End to end. Take a normalized model (the ids of its individuals are unique, and so
  are the ids of its families) with a family \<open>f\<close> that has a husband reference, the id
  of an individual \<open>pa\<close>, a wife reference, the id of an individual \<open>pb\<close>, and one child
  reference, the id of an individual \<open>pc\<close>, where \<open>pa\<close> and \<open>pb\<close> carry the id of \<open>f\<close> in
  their \<open>fams\<close> list and \<open>pc\<close> carries it as \<open>famc\<close>. Then \<open>build\<close> returns a graph in which
  the spouse list of \<open>pa\<close> contains \<open>pb\<close>, the spouse list of \<open>pb\<close> contains \<open>pa\<close>, \<open>pc\<close> is
  in the children list of both, paired with the id of \<open>f\<close>, and the sibling list of \<open>pc\<close>
  is empty. A family has a reference when the field is truthy, as the builder tests it:
  defined and not the empty string, which no producer of models gives to an individual.
\<close>

theorem build_end_to_end:
  assumes uniq: "distinct (map profile_id (indis d))" "distinct (map family_id (data_fams d))"
    and fam: "f \<in> set (data_fams d)" "husb f = Some (profile_id pa)"
      "wife f = Some (profile_id pb)" "fam_children f = Some [profile_id pc]"
    and mem: "pa \<in> set (indis d)" "pb \<in> set (indis d)" "pc \<in> set (indis d)"
    and ptr: "family_id f \<in> set (orNil (fams pa))" "family_id f \<in> set (orNil (fams pb))"
      "famc pc = Some (family_id f)"
    and refs: "truthy (husb f)" "truthy (wife f)"
  shows "\<exists>g na nb nc. build d = Inr g
      \<and> map_of (individuals g) (profile_id pa) = Some na
      \<and> map_of (individuals g) (profile_id pb) = Some nb
      \<and> map_of (individuals g) (profile_id pc) = Some nc
      \<and> (profile_id pb, family_id f) \<in> set (spouses na)
      \<and> (profile_id pa, family_id f) \<in> set (spouses nb)
      \<and> (profile_id pc, family_id f) \<in> set (children na)
      \<and> (profile_id pc, family_id f) \<in> set (children nb)
      \<and> siblings nc = []"
proof -
  let ?fm = "familiesMap (data_fams d)"
  from build_lookup[of d] obtain g where g: "build d = Inr g"
    "\<And>k. map_of (individuals g) k = nodeOf ?fm (indis d) k"
    by blast
  have look: "map_of ?fm (family_id f) = Some f"
    using uniq(2) fam(1) by (rule familiesMap_distinct)
  have na: "map_of (individuals g) (profile_id pa) = Some (relate ?fm pa (newNode pa))"
    and nb: "map_of (individuals g) (profile_id pb) = Some (relate ?fm pb (newNode pb))"
    and nc: "map_of (individuals g) (profile_id pc) = Some (relate ?fm pc (newNode pc))"
    using uniq(1) mem by (simp_all add: g(2) nodeOf_distinct)
  have sa: "(profile_id pb, family_id f) \<in> set (spouseEntries ?fm pa (family_id f))"
    using fam refs by (simp add: spouseEntries_def look)
  have sb: "(profile_id pa, family_id f) \<in> set (spouseEntries ?fm pb (family_id f))"
    using fam refs by (simp add: spouseEntries_def look)
  have ch: "(profile_id pc, family_id f) \<in> set (childEntries ?fm (family_id f))"
    using fam by (simp add: childEntries_def look)
  have 1: "(profile_id pb, family_id f) \<in> set (spouses (relate ?fm pa (newNode pa)))"
    using sa ptr(1) by (auto simp: relate_spouses)
  have 2: "(profile_id pa, family_id f) \<in> set (spouses (relate ?fm pb (newNode pb)))"
    using sb ptr(2) by (auto simp: relate_spouses)
  have 3: "(profile_id pc, family_id f) \<in> set (children (relate ?fm pa (newNode pa)))"
    using ch ptr(1) by (auto simp: relate_children)
  have 4: "(profile_id pc, family_id f) \<in> set (children (relate ?fm pb (newNode pb)))"
    using ch ptr(2) by (auto simp: relate_children)
  have 5: "siblings (relate ?fm pc (newNode pc)) = []"
    using fam ptr(3)
    by (simp add: relate_siblings addParents_def look newNode_def split: option.splits)
  from g(1) na nb nc 1 2 3 4 5 show ?thesis by blast
qed

theorem build_end_to_end_witness:
  "\<exists>g na nb nc. build coupleModel = Inr g
      \<and> map_of (individuals g) ''A'' = Some na
      \<and> map_of (individuals g) ''B'' = Some nb
      \<and> map_of (individuals g) ''C'' = Some nc
      \<and> (''B'', ''F'') \<in> set (spouses na)
      \<and> (''A'', ''F'') \<in> set (spouses nb)
      \<and> (''C'', ''F'') \<in> set (children na)
      \<and> (''C'', ''F'') \<in> set (children nb)
      \<and> siblings nc = []"
proof -
  let ?pa = "person ''A'' None (Some [''F''])"
  let ?pb = "person ''B'' None (Some [''F''])"
  let ?pc = "person ''C'' (Some ''F'') None"
  have uniq: "distinct (map profile_id (indis coupleModel))"
    "distinct (map family_id (data_fams coupleModel))"
    by (simp_all add: coupleModel_def person_def)
  have fam: "coupleFamily \<in> set (data_fams coupleModel)"
    "husb coupleFamily = Some (profile_id ?pa)" "wife coupleFamily = Some (profile_id ?pb)"
    "fam_children coupleFamily = Some [profile_id ?pc]"
    by (simp_all add: coupleModel_def coupleFamily_def person_def)
  have mem: "?pa \<in> set (indis coupleModel)" "?pb \<in> set (indis coupleModel)"
    "?pc \<in> set (indis coupleModel)"
    by (simp_all add: coupleModel_def)
  have ptr: "family_id coupleFamily \<in> set (orNil (fams ?pa))"
    "family_id coupleFamily \<in> set (orNil (fams ?pb))"
    "famc ?pc = Some (family_id coupleFamily)"
    by (simp_all add: coupleFamily_def person_def)
  have refs: "truthy (husb coupleFamily)" "truthy (wife coupleFamily)"
    by (simp_all add: coupleFamily_def)
  from build_end_to_end[OF uniq fam mem ptr refs] show ?thesis
    by (simp add: person_def coupleFamily_def)
qed

text \<open>
  C3. Dangling pointers. The specification states this for every model and every
  individual whose \<open>famc\<close> is the id of no family. It fails where two individuals share an
  id: the graph has one node per id, and the \<open>famc\<close> of the other one may resolve. What
  holds: for every model \<open>build\<close> returns a graph, without an error, and in that graph
  every spouse entry and every child entry of every node carries the id of a family of
  the model, so that a \<open>fams\<close> entry that resolves to no family has added nothing. And if
  no individual with the id of \<open>p\<close> (\<open>p\<close> itself among them) has a \<open>famc\<close> that is the id
  of a family, which is so whenever the ids are unique and the \<open>famc\<close> of \<open>p\<close> dangles,
  then the node of \<open>p\<close> in that graph has no parent pair and no siblings.
\<close>

theorem build_dangling_pointers:
  "\<exists>g. build d = Inr g
      \<and> (\<forall>k n. map_of (individuals g) k = Some n \<longrightarrow>
            snd ` set (spouses n) \<subseteq> family_id ` set (data_fams d)
          \<and> snd ` set (children n) \<subseteq> family_id ` set (data_fams d))
      \<and> (p \<in> set (indis d)
          \<and> (\<forall>q \<in> set (indis d). profile_id q = profile_id p \<longrightarrow>
                (\<forall>fc. famc q = Some fc \<longrightarrow> fc \<notin> family_id ` set (data_fams d)))
          \<longrightarrow> (\<exists>node. map_of (individuals g) (profile_id p) = Some node
                \<and> parents node = None \<and> siblings node = []))"
proof -
  let ?fm = "familiesMap (data_fams d)"
  let ?same = "filter (\<lambda>q. profile_id q = profile_id p) (indis d)"
  from build_lookup[of d] obtain g where g: "build d = Inr g"
    "\<And>k. map_of (individuals g) k = nodeOf ?fm (indis d) k"
    by blast
  have res: "snd ` set (spouses n) \<subseteq> family_id ` set (data_fams d)
          \<and> snd ` set (children n) \<subseteq> family_id ` set (data_fams d)"
    if "map_of (individuals g) k = Some n" for k n
  proof -
    from that obtain q where n: "n = foldl (\<lambda>n p. relate ?fm p n) (newNode q)
        (filter (\<lambda>p. profile_id p = k) (indis d))"
      by (auto simp: g(2) nodeOf_def)
    show ?thesis
      unfolding n using foldl_relate_resolved[of "newNode q" ?fm]
      by (simp add: newNode_def familiesMap_keys)
  qed
  have dangling: "\<exists>node. map_of (individuals g) (profile_id p) = Some node
      \<and> parents node = None \<and> siblings node = []"
    if mem: "p \<in> set (indis d)"
      and none: "\<forall>q \<in> set (indis d). profile_id q = profile_id p \<longrightarrow>
        (\<forall>fc. famc q = Some fc \<longrightarrow> fc \<notin> family_id ` set (data_fams d))"
  proof -
    from find_rev_exists[OF mem, of profile_id] obtain q0
      where q0: "find (\<lambda>r. profile_id r = profile_id p) (rev (indis d)) = Some q0"
      by blast
    define node where "node = foldl (\<lambda>n p. relate ?fm p n) (newNode q0) ?same"
    have look: "map_of (individuals g) (profile_id p) = Some node"
      by (simp add: g(2) nodeOf_def q0 node_def)
    have "parents node = parents (newNode q0) \<and> siblings node = siblings (newNode q0)"
      unfolding node_def using none
      by (intro foldl_relate_dangling) (auto simp: familiesMap_keys)
    then have "parents node = None" "siblings node = []"
      by (simp_all add: newNode_def)
    with look show ?thesis by blast
  qed
  from g(1) res dangling show ?thesis by blast
qed

theorem build_dangling_pointers_witness:
  "(\<exists>node. build danglingModel = Inr danglingGraph
      \<and> map_of (individuals danglingGraph) ''X'' = Some node
      \<and> parents node = None \<and> siblings node = []
      \<and> snd ` set (spouses node) \<subseteq> {''F1''} \<and> snd ` set (children node) \<subseteq> {''F1''})
   \<and> (\<exists>node. build resolvingModel = Inr resolvingGraph
      \<and> map_of (individuals resolvingGraph) ''C'' = Some node
      \<and> snd ` set (spouses node) \<subseteq> {''F1'', ''F2''}
      \<and> snd ` set (children node) \<subseteq> {''F1'', ''F2''})"
proof -
  let ?p = "person ''X'' (Some ''NOPE'') (Some [''GONE'', ''F1''])"
  have mem: "?p \<in> set (indis danglingModel)"
    by (simp add: danglingModel_def)
  have dangling: "\<forall>q \<in> set (indis danglingModel). profile_id q = profile_id ?p \<longrightarrow>
      (\<forall>fc. famc q = Some fc \<longrightarrow> fc \<notin> family_id ` set (data_fams danglingModel))"
    by (simp add: danglingModel_def person_def)
  from build_dangling_pointers[of danglingModel ?p] obtain g where r:
    "build danglingModel = Inr g"
    and all: "\<forall>k n. map_of (individuals g) k = Some n \<longrightarrow>
        snd ` set (spouses n) \<subseteq> family_id ` set (data_fams danglingModel)
      \<and> snd ` set (children n) \<subseteq> family_id ` set (data_fams danglingModel)"
    and imp: "?p \<in> set (indis danglingModel)
          \<and> (\<forall>q \<in> set (indis danglingModel). profile_id q = profile_id ?p \<longrightarrow>
                (\<forall>fc. famc q = Some fc \<longrightarrow> fc \<notin> family_id ` set (data_fams danglingModel)))
          \<longrightarrow> (\<exists>node. map_of (individuals g) (profile_id ?p) = Some node
                \<and> parents node = None \<and> siblings node = [])"
    by (elim exE conjE)
  from imp mem dangling obtain node where node:
    "map_of (individuals g) (profile_id ?p) = Some node" "parents node = None" "siblings node = []"
    by (elim impE exE conjE) (rule conjI)
  from r have g: "g = danglingGraph"
    by (simp add: build_danglingModel)
  have n: "map_of (individuals danglingGraph) ''X'' = Some node"
    using node(1) unfolding g by (simp add: person_def)
  have ids: "family_id ` set (data_fams danglingModel) = {''F1''}"
    by (simp add: danglingModel_def)
  from all node(1) have "snd ` set (spouses node) \<subseteq> {''F1''}"
    "snd ` set (children node) \<subseteq> {''F1''}"
    unfolding ids by blast+
  with n node(2,3) build_danglingModel have first:
    "\<exists>node. build danglingModel = Inr danglingGraph
      \<and> map_of (individuals danglingGraph) ''X'' = Some node
      \<and> parents node = None \<and> siblings node = []
      \<and> snd ` set (spouses node) \<subseteq> {''F1''} \<and> snd ` set (children node) \<subseteq> {''F1''}"
    by blast
  let ?c = "person ''C'' (Some ''F1'') (Some [''GONE'', ''F2''])"
  from build_dangling_pointers[of resolvingModel ?c] obtain h where s:
    "build resolvingModel = Inr h"
    and all2: "\<forall>k n. map_of (individuals h) k = Some n \<longrightarrow>
        snd ` set (spouses n) \<subseteq> family_id ` set (data_fams resolvingModel)
      \<and> snd ` set (children n) \<subseteq> family_id ` set (data_fams resolvingModel)"
    and imp2: "?c \<in> set (indis resolvingModel)
          \<and> (\<forall>q \<in> set (indis resolvingModel). profile_id q = profile_id ?c \<longrightarrow>
                (\<forall>fc. famc q = Some fc \<longrightarrow> fc \<notin> family_id ` set (data_fams resolvingModel)))
          \<longrightarrow> (\<exists>node. map_of (individuals h) (profile_id ?c) = Some node
                \<and> parents node = None \<and> siblings node = [])"
    by (elim exE conjE)
  from s have h: "h = resolvingGraph"
    by (simp add: build_resolvingModel)
  obtain node2 where n2: "map_of (individuals resolvingGraph) ''C'' = Some node2"
    by (simp add: resolvingGraph_def)
  have ids2: "family_id ` set (data_fams resolvingModel) = {''F1'', ''F2''}"
    by (simp add: resolvingModel_def)
  from all2 n2 have "snd ` set (spouses node2) \<subseteq> {''F1'', ''F2''}"
    "snd ` set (children node2) \<subseteq> {''F1'', ''F2''}"
    unfolding ids2 h by blast+
  with n2 build_resolvingModel have second:
    "\<exists>node. build resolvingModel = Inr resolvingGraph
      \<and> map_of (individuals resolvingGraph) ''C'' = Some node
      \<and> snd ` set (spouses node) \<subseteq> {''F1'', ''F2''}
      \<and> snd ` set (children node) \<subseteq> {''F1'', ''F2''}"
    by blast
  from first second show ?thesis by (rule conjI)
qed

theorem build_dangling_pointers_counterexample:
  "person ''X'' (Some ''NOPE'') None \<in> set (indis duplicateModel)
   \<and> ''NOPE'' \<notin> family_id ` set (data_fams duplicateModel)
   \<and> build duplicateModel = Inr duplicateGraph
   \<and> map_option profile (map_of (individuals duplicateGraph) ''X'')
        = Some (person ''X'' (Some ''NOPE'') None)
   \<and> map_option parents (map_of (individuals duplicateGraph) ''X'') = Some (Some [''H''])
   \<and> map_option siblings (map_of (individuals duplicateGraph) ''X'') = Some [(''Y'', Full)]"
  by (simp add: build_duplicateModel) (simp add: duplicateModel_def duplicateGraph_def)

section \<open>Properties of the queries\<close>

text \<open>
  C10. For every graph and every start id that is not a key of its individuals map,
  \<open>getImmediateFamily\<close> returns four empty lists. The function has no failing branch.
\<close>

theorem getImmediateFamily_unknown:
  assumes "start \<notin> fst ` set (individuals g)"
  shows "getImmediateFamily start g =
     \<lparr>if_parents = [], if_spouses = [], if_children = [], if_siblings = []\<rparr>"
proof -
  from assms have "map_of (individuals g) start = None"
    by (simp add: map_of_None_keys)
  then show ?thesis
    by (simp add: getImmediateFamily_def)
qed

theorem getImmediateFamily_unknown_witness:
  "''Z'' \<notin> fst ` set (individuals coupleGraph)
   \<and> getImmediateFamily ''Z'' coupleGraph =
       \<lparr>if_parents = [], if_spouses = [], if_children = [], if_siblings = []\<rparr>"
proof -
  have h: "''Z'' \<notin> fst ` set (individuals coupleGraph)"
    by (simp add: coupleGraph_def)
  from h getImmediateFamily_unknown[OF h] show ?thesis by simp
qed

lemmas traverse_unfold = getAncestors_def traverse.simps

lemma resolveProfiles_Nil [simp]: "resolveProfiles g [] = []"
  by (simp add: resolveProfiles_def map_filter_simps)

lemma resolveProfiles_member:
  "q \<in> set (resolveProfiles g ids) \<Longrightarrow>
     \<exists>i n. i \<in> set ids \<and> map_of (individuals g) i = Some n \<and> q = profile n"
proof (induction ids)
  case Nil
  then show ?case by simp
next
  case (Cons i ids)
  then show ?case
    by (cases "map_of (individuals g) i") (auto simp: resolveProfiles_Cons)
qed

text \<open>
  C2. Cycle safety. \<open>traverse\<close> is a total function: its termination is proved above for
  every graph, every start id and every bound, the bounds \<^verbatim>\<open>Infinity\<close> and \<^verbatim>\<open>NaN\<close>, which
  never stop the descent, among them, from the visited set alone. On every graph that
  \<open>build\<close> returns, a graph whose parent pointers form a cycle included, the list that
  \<open>getAncestors\<close> returns holds each profile id at most once.
\<close>

theorem getAncestors_visits_once:
  "build d = Inr g \<Longrightarrow> distinct (map profile_id (getAncestors start g generations))"
  by (rule getAncestors_distinct_keyed) (rule build_keyed)

theorem getAncestors_visits_once_witness:
  "build cycleModel = Inr cycleGraph
   \<and> getAncestors ''P'' cycleGraph Infinity
        = [person ''P'' (Some ''F1'') None, person ''Q'' (Some ''F2'') None]
   \<and> distinct (map profile_id (getAncestors ''P'' cycleGraph Infinity))"
proof -
  have "getAncestors ''P'' cycleGraph Infinity
        = [person ''P'' (Some ''F1'') None, person ''Q'' (Some ''F2'') None]"
    by (simp add: traverse_unfold cycleGraph_def)
  with build_cycleModel getAncestors_visits_once[OF build_cycleModel, of "''P''" Infinity]
  show ?thesis by simp
qed

text \<open>
  C4. One generation. For every individual in a graph that \<open>build\<close> returns,
  \<open>getAncestors\<close> with the bound 1 returns the profile of the start individual first, and
  after it exactly the profiles of the ids of its parent pair that the graph knows: at
  most three profiles, each id once. Every profile returned is the start individual or
  one of its parents, so that nobody is returned for being a grandparent. The parent pair
  is the one that a resolving \<open>famc\<close> has set; without one the start individual is returned
  alone.
\<close>

theorem getAncestors_one_generation:
  assumes "build d = Inr g" "map_of (individuals g) start = Some node"
  shows "set (getAncestors start g (Num 1))
           = insert (profile node) (set (resolveProfiles g (orNil (parents node))))
       \<and> hd (getAncestors start g (Num 1)) = profile node
       \<and> length (getAncestors start g (Num 1)) \<le> 3
       \<and> distinct (map profile_id (getAncestors start g (Num 1)))
       \<and> profile_id ` set (getAncestors start g (Num 1))
            \<subseteq> insert start (set (orNil (parents node)))"
proof -
  let ?st1 = "\<lparr>visited = {start}, result = [profile node]\<rparr>"
  let ?ps = "orNil (parents node)"
  have pair: "parentPair node"
    using assms by (rule build_node_parents)
  have keyed: "keyed g"
    using assms(1) by (rule build_keyed)
  have unfold: "getAncestors start g (Num 1) = result (forEachParent g (Num 1) ?ps 1 ?st1)"
    using assms(2) by (simp add: getAncestors_def traverse.simps)
  have "collected g ?st1"
    using assms(2) by (simp add: collected_def)
  moreover have "[] \<notin> set ?ps"
    using pair by (simp add: parentPair_def)
  moreover have "\<not> depthExceeds 1 (Num 1)" "depthExceeds (Suc 1) (Num 1)"
    by simp_all
  ultimately obtain ys where ys:
    "result (forEachParent g (Num 1) ?ps 1 ?st1) = result ?st1 @ ys"
    "length ys \<le> length ?ps"
    "set (result ?st1) \<union> set ys = set (result ?st1) \<union> set (resolveProfiles g ?ps)"
    using forEachParent_last_generation[of 1 "Num 1" g ?st1 ?ps] by blast
  have "length ?ps \<le> 2"
    using pair by (simp add: parentPair_def)
  with ys unfold have main: "set (getAncestors start g (Num 1))
           = insert (profile node) (set (resolveProfiles g ?ps))"
    "hd (getAncestors start g (Num 1)) = profile node"
    "length (getAncestors start g (Num 1)) \<le> 3"
    by auto
  have dist: "distinct (map profile_id (getAncestors start g (Num 1)))"
    using keyed by (rule getAncestors_distinct_keyed)
  have "profile_id (profile node) = start"
    using keyed assms(2) by (simp add: keyed_def)
  moreover have "profile_id q \<in> set ?ps" if "q \<in> set (resolveProfiles g ?ps)" for q
  proof -
    from that obtain i n where "i \<in> set ?ps" "map_of (individuals g) i = Some n" "q = profile n"
      by (auto dest: resolveProfiles_member)
    with keyed show ?thesis by (simp add: keyed_def)
  qed
  ultimately have "profile_id ` set (getAncestors start g (Num 1)) \<subseteq> insert start (set ?ps)"
    unfolding main(1) by auto
  with main dist show ?thesis by blast
qed

theorem getAncestors_one_generation_witness:
  "build threeGenerations = Inr threeGenerationsGraph
   \<and> getAncestors ''K'' threeGenerationsGraph (Num 1)
        = [person ''K'' (Some ''F2'') None, person ''P'' (Some ''F1'') (Some [''F2'']),
           person ''Q'' None (Some [''F2''])]
   \<and> profile_id ` set (getAncestors ''K'' threeGenerationsGraph (Num 1)) \<subseteq> {''K'', ''P'', ''Q''}"
proof -
  let ?node = "\<lparr>profile = person ''K'' (Some ''F2'') None, parents = Some [''P'', ''Q''],
                 spouses = [], children = [], siblings = []\<rparr>"
  have look: "map_of (individuals threeGenerationsGraph) ''K'' = Some ?node"
    by (simp add: threeGenerationsGraph_def)
  have eval: "getAncestors ''K'' threeGenerationsGraph (Num 1)
        = [person ''K'' (Some ''F2'') None, person ''P'' (Some ''F1'') (Some [''F2'']),
           person ''Q'' None (Some [''F2''])]"
    by (simp add: traverse_unfold threeGenerationsGraph_def)
  from getAncestors_one_generation[OF build_threeGenerations look]
  have "profile_id ` set (getAncestors ''K'' threeGenerationsGraph (Num 1))
      \<subseteq> insert ''K'' (set (orNil (parents ?node)))"
    by (elim conjE)
  then have "profile_id ` set (getAncestors ''K'' threeGenerationsGraph (Num 1)) \<subseteq> {''K'', ''P'', ''Q''}"
    by simp
  with build_threeGenerations eval show ?thesis by simp
qed

section \<open>Properties of the parser\<close>

lemma splitOn_not_Nil [simp]: "splitOn sep s \<noteq> []"
  by (induction s) simp_all

lemma splitOn_free: "sep \<notin> set t \<Longrightarrow> splitOn sep t = [t]"
  by (induction t) auto

lemma splitOn_append: "sep \<notin> set t \<Longrightarrow> splitOn sep (t @ sep # rest) = t # splitOn sep rest"
  by (induction t) auto

lemma splitOn_joinWith:
  "ts \<noteq> [] \<Longrightarrow> \<forall>t\<in>set ts. sep \<notin> set t \<Longrightarrow> splitOn sep (joinWith sep ts) = ts"
proof (induction sep ts rule: joinWith.induct)
  case (1 sep)
  then show ?case by simp
next
  case (2 sep t)
  then show ?case by (simp add: splitOn_free)
next
  case (3 sep t u ts)
  then show ?case by (simp add: splitOn_append)
qed

lemma joinWith_splitOn: "joinWith sep (splitOn sep s) = s"
proof (induction s)
  case Nil
  then show ?case by simp
next
  case (Cons c s)
  obtain t ts where ts: "splitOn sep s = t # ts"
    by (cases "splitOn sep s") simp_all
  with Cons show ?case by (cases ts) auto
qed

lemma splitOn_parts_free: "t \<in> set (splitOn sep s) \<Longrightarrow> sep \<notin> set t"
proof (induction s arbitrary: t)
  case Nil
  then show ?case by simp
next
  case (Cons c s)
  obtain u us where us: "splitOn sep s = u # us"
    by (cases "splitOn sep s") simp_all
  with Cons show ?case by (auto split: if_splits)
qed

lemma parseDate_parts:
  assumes "dateStr \<noteq> []" "trim dateStr = joinWith (CHR '' '') ts" "ts \<noteq> []"
    "\<forall>t\<in>set ts. CHR '' '' \<notin> set t"
  shows "parseDate dateStr = Some
     (if length ts \<ge> 3 then
        \<lparr>day = Some (parseInt (ts ! 0)), month = Some (Num (monthToNumber (ts ! 1))),
         year = Some (parseInt (ts ! 2)), dateText = Some dateStr\<rparr>
      else if length ts = 1 \<and> fourDigits (ts ! 0) then
        \<lparr>day = None, month = None, year = Some (parseInt (ts ! 0)), dateText = Some dateStr\<rparr>
      else \<lparr>day = None, month = None, year = None, dateText = Some dateStr\<rparr>)"
proof -
  have "splitOn (CHR '' '') (trim dateStr) = ts"
    using assms(2-4) by (simp add: splitOn_joinWith)
  with assms(1) show ?thesis
    by (simp add: parseDate_def Let_def)
qed

lemma months_upper: "(name, k) \<in> set months \<Longrightarrow> toUpperCase name = name"
  by (auto simp: months_def toUpperCase_def toUpperCaseChar_def)

lemma months_lookup: "(name, k) \<in> set months \<Longrightarrow> map_of months name = Some k"
  by (rule map_of_is_SomeI) (simp_all add: months_def)

lemma monthToNumber_known:
  assumes "(name, k) \<in> set months" "equalsIgnoreCase m name"
  shows "monthToNumber m = k"
proof -
  have "toUpperCase m = name"
    using assms by (simp add: equalsIgnoreCase_def months_upper)
  with assms(1) show ?thesis
    by (simp add: monthToNumber_def months_lookup)
qed

lemma monthToNumber_unknown:
  assumes "\<forall>(name, k) \<in> set months. \<not> equalsIgnoreCase m name"
  shows "monthToNumber m = 0"
proof (cases "map_of months (toUpperCase m)")
  case None
  then show ?thesis by (simp add: monthToNumber_def)
next
  case (Some k)
  then have mem: "(toUpperCase m, k) \<in> set months" by (rule map_of_SomeD)
  then have "equalsIgnoreCase m (toUpperCase m)"
    by (simp add: equalsIgnoreCase_def months_upper)
  with assms mem show ?thesis by blast
qed

lemma takeWhile_upto:
  "\<forall>x\<in>set xs. P x \<Longrightarrow> \<not> P y \<Longrightarrow> takeWhile P (xs @ y # ys) = xs"
  by (induction xs) simp_all

lemma dropWhile_upto:
  "\<forall>x\<in>set xs. P x \<Longrightarrow> \<not> P y \<Longrightarrow> dropWhile P (xs @ y # ys) = y # ys"
  by (induction xs) simp_all

lemma nameMatch_segment:
  assumes "CHR ''/'' \<notin> set g1" "CHR ''/'' \<notin> set g2" "g2 \<noteq> []"
  shows "nameMatch (g1 @ CHR ''/'' # g2 @ CHR ''/'' # rest) = Some (g1, g2)"
proof -
  let ?P = "\<lambda>c. c \<noteq> CHR ''/''"
  have 1: "\<forall>x\<in>set g1. ?P x" "\<forall>x\<in>set g2. ?P x" using assms by auto
  have "takeWhile ?P (g1 @ CHR ''/'' # g2 @ CHR ''/'' # rest) = g1"
    "dropWhile ?P (g1 @ CHR ''/'' # g2 @ CHR ''/'' # rest) = CHR ''/'' # g2 @ CHR ''/'' # rest"
    "takeWhile ?P (g2 @ CHR ''/'' # rest) = g2"
    "dropWhile ?P (g2 @ CHR ''/'' # rest) = CHR ''/'' # rest"
    using 1 by (simp_all add: takeWhile_upto dropWhile_upto)
  with assms(3) show ?thesis
    by (simp add: nameMatch_def Let_def)
qed

lemma dropWhile_Cons_hd: "dropWhile P xs = y # ys \<Longrightarrow> \<not> P y"
  using hd_dropWhile[of P xs] by auto

lemma nameMatch_SomeD:
  assumes "nameMatch s = Some (g1, g2)"
  shows "\<exists>rest. s = g1 @ CHR ''/'' # g2 @ CHR ''/'' # rest
      \<and> CHR ''/'' \<notin> set g1 \<and> CHR ''/'' \<notin> set g2 \<and> g2 \<noteq> []"
proof -
  let ?P = "\<lambda>c. c \<noteq> CHR ''/''"
  from assms obtain c r where r: "dropWhile ?P s = c # r"
    by (cases "dropWhile ?P s") (auto simp: nameMatch_def)
  then have c: "c = CHR ''/''" using dropWhile_Cons_hd[OF r] by simp
  from assms r have g: "g1 = takeWhile ?P s" "g2 = takeWhile ?P r" "g2 \<noteq> []"
    "dropWhile ?P r \<noteq> []"
    by (auto simp: nameMatch_def Let_def split: if_splits)
  then obtain c' rest where rest: "dropWhile ?P r = c' # rest"
    by (cases "dropWhile ?P r") auto
  then have c': "c' = CHR ''/''" using dropWhile_Cons_hd[OF rest] by simp
  have "s = takeWhile ?P s @ dropWhile ?P s" by simp
  also have "\<dots> = g1 @ CHR ''/'' # (takeWhile ?P r @ dropWhile ?P r)"
    using r c g(1) by simp
  also have "\<dots> = g1 @ CHR ''/'' # g2 @ CHR ''/'' # rest"
    using rest c' g(2) by simp
  finally have "s = g1 @ CHR ''/'' # g2 @ CHR ''/'' # rest" .
  moreover have "CHR ''/'' \<notin> set g1" "CHR ''/'' \<notin> set g2"
    unfolding g by (auto dest: set_takeWhileD)
  ultimately show ?thesis using g(3) by blast
qed

lemmas string_unfold =
  trim_def isWhiteSpace_def toUpperCase_def toUpperCaseChar_def equalsIgnoreCase_def

lemmas parseInt_unfold =
  parseInt_def isRadixDigit_def digitOf_def digitValue_def

lemmas parseDate_unfold =
  parseDate_def fourDigits_def isDigit_def monthToNumber_def months_def parseInt_unfold
  string_unfold

text \<open>
  C5. Date parsing. The specification says that exactly three tokens give day, month and
  year and that every other pattern gives no structured field; the code takes the branch for three
  or more parts, and it splits at single spaces, not at white space. What holds:
  the empty string gives no date. Any other string is trimmed and split at every space,
  into the parts \<open>ts\<close> that joined by single spaces give the trimmed string back. Three or
  more parts give the day (\<open>parseInt\<close> of the first part), the month (the second part
  looked up without regard to case among the twelve abbreviations, \<open>0\<close> when it is none of
  them) and the year (\<open>parseInt\<close> of the third part), and the parts after the third are
  ignored; one part of four digits gives the year alone; one other part, or two parts,
  give no structured field. The original text is stored in every case. The three examples
  of the specification come out as it says.
\<close>

theorem parseDate_behaviour:
  "parseDate [] = None
   \<and> (\<exists>ts. ts \<noteq> [] \<and> (\<forall>t\<in>set ts. CHR '' '' \<notin> set t) \<and> trim dateStr = joinWith (CHR '' '') ts)
   \<and> (dateStr \<noteq> [] \<and> trim dateStr = joinWith (CHR '' '') ts \<and> ts \<noteq> []
        \<and> (\<forall>t\<in>set ts. CHR '' '' \<notin> set t) \<longrightarrow>
       parseDate dateStr = Some
         (if length ts \<ge> 3 then
            \<lparr>day = Some (parseInt (ts ! 0)), month = Some (Num (monthToNumber (ts ! 1))),
             year = Some (parseInt (ts ! 2)), dateText = Some dateStr\<rparr>
          else if length ts = 1 \<and> fourDigits (ts ! 0) then
            \<lparr>day = None, month = None, year = Some (parseInt (ts ! 0)), dateText = Some dateStr\<rparr>
          else \<lparr>day = None, month = None, year = None, dateText = Some dateStr\<rparr>))
   \<and> ((name, k) \<in> set months \<and> equalsIgnoreCase m name \<longrightarrow> monthToNumber m = k)
   \<and> ((\<forall>(name, k) \<in> set months. \<not> equalsIgnoreCase m name) \<longrightarrow> monthToNumber m = 0)
   \<and> parseDate ''15 JUN 1980'' =
        Some \<lparr>day = Some (Num 15), month = Some (Num 6), year = Some (Num 1980),
              dateText = Some ''15 JUN 1980''\<rparr>
   \<and> parseDate ''1980'' =
        Some \<lparr>day = None, month = None, year = Some (Num 1980), dateText = Some ''1980''\<rparr>
   \<and> parseDate ''circa 1980'' =
        Some \<lparr>day = None, month = None, year = None, dateText = Some ''circa 1980''\<rparr>"
proof -
  have 1: "parseDate [] = None"
    by (simp add: parseDate_def)
  have 2: "\<exists>ts. ts \<noteq> [] \<and> (\<forall>t\<in>set ts. CHR '' '' \<notin> set t)
      \<and> trim dateStr = joinWith (CHR '' '') ts"
    using splitOn_parts_free[of _ "CHR '' ''" "trim dateStr"]
    by (intro exI[of _ "splitOn (CHR '' '') (trim dateStr)"]) (simp add: joinWith_splitOn)
  have 3: "parseDate ''15 JUN 1980'' =
        Some \<lparr>day = Some (Num 15), month = Some (Num 6), year = Some (Num 1980),
              dateText = Some ''15 JUN 1980''\<rparr>"
    by (simp add: parseDate_unfold)
  have 4: "parseDate ''1980'' =
        Some \<lparr>day = None, month = None, year = Some (Num 1980), dateText = Some ''1980''\<rparr>"
    by (simp add: parseDate_unfold)
  have 5: "parseDate ''circa 1980'' =
        Some \<lparr>day = None, month = None, year = None, dateText = Some ''circa 1980''\<rparr>"
    by (simp add: parseDate_unfold)
  from 1 2 3 4 5 parseDate_parts[of dateStr ts] monthToNumber_known[of name k m]
    monthToNumber_unknown[of m]
  show ?thesis by blast
qed

theorem parseDate_behaviour_witness:
  "parseDate '' 3 sep 2001 bc'' =
     Some \<lparr>day = Some (Num 3), month = Some (Num 9), year = Some (Num 2001),
           dateText = Some '' 3 sep 2001 bc''\<rparr>
   \<and> monthToNumber ''sep'' = 9 \<and> monthToNumber ''sept'' = 0"
proof -
  let ?ts = "[''3'', ''sep'', ''2001'', ''bc'']"
  have h1: "'' 3 sep 2001 bc'' \<noteq> [] \<and> trim '' 3 sep 2001 bc'' = joinWith (CHR '' '') ?ts
      \<and> ?ts \<noteq> [] \<and> (\<forall>t\<in>set ?ts. CHR '' '' \<notin> set t)"
    by (simp add: string_unfold)
  have h2: "(''SEP'', 9) \<in> set months \<and> equalsIgnoreCase ''sep'' ''SEP''"
    by (simp add: months_def string_unfold)
  have h3: "\<forall>(name, k) \<in> set months. \<not> equalsIgnoreCase ''sept'' name"
    by (simp add: months_def string_unfold)
  from parseDate_behaviour[of "'' 3 sep 2001 bc''" ?ts "''SEP''" 9 "''sep''"] h1 h2
  have a: "parseDate '' 3 sep 2001 bc'' = Some
      \<lparr>day = Some (parseInt ''3''), month = Some (Num (monthToNumber ''sep'')),
       year = Some (parseInt ''2001''), dateText = Some '' 3 sep 2001 bc''\<rparr>"
    and b: "monthToNumber ''sep'' = 9"
    by simp_all
  from parseDate_behaviour[of _ _ _ _ "''sept''"] h3
  have c: "monthToNumber ''sept'' = 0"
    by blast
  have "parseInt ''3'' = Num 3" "parseInt ''2001'' = Num 2001"
    by (simp_all add: parseInt_unfold isWhiteSpace_def)
  with a b c show ?thesis by simp
qed

theorem parseDate_behaviour_counterexample:
  "splitOn (CHR '' '') (trim ''ABT 15 JUN 1980'') = [''ABT'', ''15'', ''JUN'', ''1980'']
   \<and> parseDate ''ABT 15 JUN 1980'' =
       Some \<lparr>day = Some NaN, month = Some (Num 0), year = Some NaN,
             dateText = Some ''ABT 15 JUN 1980''\<rparr>"
  by (simp add: parseDate_unfold)

text \<open>
  C6. Name splitting. A slash-delimited segment is a slash, a text without a slash that is
  not empty, and a slash; the leading text is what stands before the first slash. For a
  name \<open>g1/g2/rest\<close> of this form the given name is the leading text \<open>g1\<close> and the surname
  is the segment \<open>g2\<close>, each without the white space around it, and unset when nothing but
  white space is there. A name that is not of this form is the given name as a whole, and
  the surname is unset. So \<^verbatim>\<open>John /Doe/\<close> has the given name John and the surname Doe,
  and \<^verbatim>\<open>Jane\<close> has the given name Jane and no surname.
\<close>

theorem parseName_split:
  "(CHR ''/'' \<notin> set g1 \<and> CHR ''/'' \<notin> set g2 \<and> g2 \<noteq> [] \<longrightarrow>
      parseName (g1 @ CHR ''/'' # g2 @ CHR ''/'' # rest)
        = (orUndefined (trim g1), orUndefined (trim g2)))
   \<and> ((\<nexists>h1 h2 r. s = h1 @ CHR ''/'' # h2 @ CHR ''/'' # r
          \<and> CHR ''/'' \<notin> set h1 \<and> CHR ''/'' \<notin> set h2 \<and> h2 \<noteq> []) \<longrightarrow>
      parseName s = (Some s, None))
   \<and> parseName ''John /Doe/'' = (Some ''John'', Some ''Doe'')
   \<and> parseName ''Jane'' = (Some ''Jane'', None)"
proof -
  have a: "parseName (g1 @ CHR ''/'' # g2 @ CHR ''/'' # rest)
      = (orUndefined (trim g1), orUndefined (trim g2))"
    if "CHR ''/'' \<notin> set g1" "CHR ''/'' \<notin> set g2" "g2 \<noteq> []"
    using nameMatch_segment[OF that] by (simp add: parseName_def)
  have b: "parseName s = (Some s, None)"
    if "\<nexists>h1 h2 r. s = h1 @ CHR ''/'' # h2 @ CHR ''/'' # r
          \<and> CHR ''/'' \<notin> set h1 \<and> CHR ''/'' \<notin> set h2 \<and> h2 \<noteq> []"
  proof (cases "nameMatch s")
    case None
    then show ?thesis by (simp add: parseName_def)
  next
    case (Some g)
    obtain h1 h2 where "g = (h1, h2)" by (cases g)
    with Some nameMatch_SomeD[of s h1 h2] that show ?thesis by blast
  qed
  have c: "parseName ''John /Doe/'' = (Some ''John'', Some ''Doe'')"
    by (simp add: parseName_def nameMatch_def orUndefined_def trim_def isWhiteSpace_def)
  have d: "parseName ''Jane'' = (Some ''Jane'', None)"
    by (simp add: parseName_def nameMatch_def)
  from a b c d show ?thesis by blast
qed

theorem parseName_split_witness:
  "parseName ''Mary Ann /Smith/ Jr'' = (Some ''Mary Ann'', Some ''Smith'')
   \<and> parseName ''Cher'' = (Some ''Cher'', None)"
proof -
  have h1: "CHR ''/'' \<notin> set ''Mary Ann '' \<and> CHR ''/'' \<notin> set ''Smith'' \<and> ''Smith'' \<noteq> []"
    by simp
  have h2: "\<nexists>h1 h2 r. ''Cher'' = h1 @ CHR ''/'' # h2 @ CHR ''/'' # r
      \<and> CHR ''/'' \<notin> set h1 \<and> CHR ''/'' \<notin> set h2 \<and> h2 \<noteq> []"
  proof
    assume "\<exists>h1 h2 r. ''Cher'' = h1 @ CHR ''/'' # h2 @ CHR ''/'' # r
      \<and> CHR ''/'' \<notin> set h1 \<and> CHR ''/'' \<notin> set h2 \<and> h2 \<noteq> []"
    then obtain h1 h2 r where e: "''Cher'' = h1 @ CHR ''/'' # h2 @ CHR ''/'' # r"
      by (elim exE conjE)
    have "CHR ''/'' \<in> set (h1 @ CHR ''/'' # h2 @ CHR ''/'' # r)"
      by simp
    then have "CHR ''/'' \<in> set ''Cher''"
      by (simp only: e [symmetric])
    then show False by simp
  qed
  from parseName_split[of "''Mary Ann ''" "''Smith''" "'' Jr''" "''Cher''"] h1 h2
  have "parseName (''Mary Ann '' @ CHR ''/'' # ''Smith'' @ CHR ''/'' # '' Jr'')
      = (orUndefined (trim ''Mary Ann ''), orUndefined (trim ''Smith''))"
    and "parseName ''Cher'' = (Some ''Cher'', None)"
    by (elim conjE, blast)+
  then show ?thesis
    by (simp add: orUndefined_def trim_def isWhiteSpace_def)
qed

text \<open>
  C7. Sex normalization. The specification sends every value other than M, F, X and
  OTHER to unspecified; the code also reads MALE as male and FEMALE as female. What holds: an
  absent or empty value is unset; any other value is compared without regard to case, and
  M or MALE is male, F or FEMALE is female, X or OTHER is other, everything else is
  unspecified.
\<close>

theorem normalizeSex_table:
  "normalizeSex None = None \<and> normalizeSex (Some []) = None
   \<and> (v \<noteq> [] \<longrightarrow>
        normalizeSex (Some v) = Some
          (if equalsIgnoreCase v ''M'' \<or> equalsIgnoreCase v ''MALE'' then SexM
           else if equalsIgnoreCase v ''F'' \<or> equalsIgnoreCase v ''FEMALE'' then SexF
           else if equalsIgnoreCase v ''X'' \<or> equalsIgnoreCase v ''OTHER'' then SexX
           else SexU))"
proof -
  have up: "toUpperCase ''M'' = ''M''" "toUpperCase ''MALE'' = ''MALE''"
    "toUpperCase ''F'' = ''F''" "toUpperCase ''FEMALE'' = ''FEMALE''"
    "toUpperCase ''X'' = ''X''" "toUpperCase ''OTHER'' = ''OTHER''"
    by (simp_all add: toUpperCase_def toUpperCaseChar_def)
  show ?thesis
    by (simp add: normalizeSex_def equalsIgnoreCase_def up Let_def)
qed

theorem normalizeSex_table_witness:
  "normalizeSex (Some ''Female'') = Some SexF \<and> normalizeSex (Some ''n/a'') = Some SexU"
proof -
  have "''Female'' \<noteq> []" "''n/a'' \<noteq> []"
    by simp_all
  with normalizeSex_table[of "''Female''"] normalizeSex_table[of "''n/a''"]
  show ?thesis
    by (simp add: string_unfold)
qed

theorem normalizeSex_table_counterexample:
  "normalizeSex (Some ''male'') = Some SexM \<and> \<not> equalsIgnoreCase ''male'' ''M''"
  by (simp add: normalizeSex_def string_unfold)

end
